theory Spec2Isabelle
  imports Complex_Main "HOL-Library.Sublist" "HOL-Library.Log_Nat"
begin

section \<open>Python values used by the matcher\<close>

subsection \<open>Text\<close>

text \<open>
  A Python \<^verbatim>\<open>str\<close> is a sequence of code points. The model is \<^typ>\<open>string\<close>, each
  \<^typ>\<open>char\<close> read as the code point of the same number (0 to 255). On that range
  \<^verbatim>\<open>str.lower\<close> maps \<^verbatim>\<open>A-Z\<close> and the Latin-1 capitals \<^verbatim>\<open>U+00C0-U+00DE\<close> (without
  \<^verbatim>\<open>U+00D7\<close>) to the code point 32 above, and \<^verbatim>\<open>str.strip()\<close> and \<^verbatim>\<open>str.split()\<close> treat
  exactly the code points of \<open>whitespace_cps\<close> as white space.
\<close>

definition is_upper :: "char \<Rightarrow> bool" where
  "is_upper c =
     (let n = (of_char c :: nat)
      in (65 \<le> n \<and> n \<le> 90) \<or> (192 \<le> n \<and> n \<le> 222 \<and> n \<noteq> 215))"

definition lower_char :: "char \<Rightarrow> char" where
  "lower_char c = (if is_upper c then char_of ((of_char c :: nat) + 32) else c)"

definition lower :: "string \<Rightarrow> string" where
  "lower s = map lower_char s"

definition whitespace_cps :: "nat list" where
  "whitespace_cps = [9, 10, 11, 12, 13, 28, 29, 30, 31, 32, 133, 160]"

definition isspace :: "char \<Rightarrow> bool" where
  "isspace c = ((of_char c :: nat) \<in> set whitespace_cps)"

definition strip :: "string \<Rightarrow> string" where
  "strip s = rev (dropWhile isspace (rev (dropWhile isspace s)))"

text \<open>
  \<^verbatim>\<open>s.split()\<close>: the maximal runs of non-space code points, in order. The first
  argument is the word being read, reversed.
\<close>

fun split_from :: "string \<Rightarrow> string \<Rightarrow> string list" where
  "split_from w [] = (if w = [] then [] else [rev w])"
| "split_from w (c # cs) =
     (if isspace c then (if w = [] then split_from [] cs else rev w # split_from [] cs)
      else split_from (c # w) cs)"

definition split :: "string \<Rightarrow> string list" where
  "split s = split_from [] s"

text \<open>\<^verbatim>\<open>sub in s\<close> on two strings: \<open>sub\<close> occurs in \<open>s\<close> as a contiguous block.\<close>

fun str_in :: "string \<Rightarrow> string \<Rightarrow> bool" where
  "str_in sub [] = (sub = [])"
| "str_in sub (c # cs) = (prefix sub (c # cs) \<or> str_in sub cs)"

text \<open>\<^verbatim>\<open>str(x or '')\<close> for a nullable text column: \<^verbatim>\<open>None\<close> and \<^verbatim>\<open>''\<close> both give \<^verbatim>\<open>''\<close>.\<close>

definition str_or_empty :: "string option \<Rightarrow> string" where
  "str_or_empty x = (case x of None \<Rightarrow> [] | Some s \<Rightarrow> s)"

text \<open>\<^verbatim>\<open>str(x or '').lower().strip()\<close>, the normal form every text rule works on.\<close>

definition norm_text :: "string option \<Rightarrow> string" where
  "norm_text x = strip (lower (str_or_empty x))"

subsection \<open>Floats\<close>

text \<open>
  A Python \<^verbatim>\<open>float\<close> is an IEEE 754 binary64 value: a finite number, an infinity or
  NaN. A finite value is held as the rational it denotes (the sign of a zero is dropped:
  no operation of the matcher can tell \<^verbatim>\<open>-0.0\<close> from \<^verbatim>\<open>0.0\<close>).
\<close>

datatype pyfloat = Finite rat | PosInf | NegInf | NaN

datatype py_error = ZeroDivisionError | ValueError

text \<open>\<^verbatim>\<open>x == 0\<close>.\<close>

fun float_is_zero :: "pyfloat \<Rightarrow> bool" where
  "float_is_zero (Finite x) = (x = 0)"
| "float_is_zero _ = False"

text \<open>\<^verbatim>\<open>a <= b\<close>: false as soon as one side is NaN.\<close>

fun float_le :: "pyfloat \<Rightarrow> pyfloat \<Rightarrow> bool" where
  "float_le NaN _ = False"
| "float_le _ NaN = False"
| "float_le NegInf _ = True"
| "float_le _ PosInf = True"
| "float_le (Finite x) (Finite y) = (x \<le> y)"
| "float_le (Finite x) NegInf = False"
| "float_le PosInf _ = False"

text \<open>Rounding to the nearest integer, ties to even.\<close>

definition round_half_even :: "rat \<Rightarrow> int" where
  "round_half_even x =
     (let f = \<lfloor>x\<rfloor>; d = x - of_int f
      in if d < 1 / 2 then f
         else if 1 / 2 < d then f + 1
         else if even f then f else f + 1)"

text \<open>\<open>pow2 k\<close> is \<open>2\<close> to the (possibly negative) power \<open>k\<close>.\<close>

definition pow2 :: "int \<Rightarrow> rat" where
  "pow2 k = (if 0 \<le> k then 2 ^ nat k else 1 / 2 ^ nat (- k))"

text \<open>The exponent \<open>e\<close> with \<open>2^e \<le> a < 2^(e+1)\<close>, for \<open>a > 0\<close>.\<close>

definition floor_log2 :: "rat \<Rightarrow> int" where
  "floor_log2 a =
     (let (p, q) = quotient_of a; e = bitlen p - bitlen q
      in if pow2 e \<le> a then e else e - 1)"

text \<open>
  The binary64 value nearest to a rational (round to nearest, ties to even): 53
  significant bits, exponents from -1022 (below that the spacing stays \<open>2^-1074\<close>:
  subnormal numbers), and an infinity when the rounded value reaches \<open>2^1024\<close>.
\<close>

definition binary64_round :: "rat \<Rightarrow> pyfloat" where
  "binary64_round q =
     (if q = 0 then Finite 0
      else
        let a = \<bar>q\<bar>;
            e = max (floor_log2 a) (- 1022);
            ulp = pow2 (e - 52);
            r = of_int (round_half_even (a / ulp)) * ulp
        in if pow2 1024 \<le> r then (if q < 0 then NegInf else PosInf)
           else Finite (if q < 0 then - r else r))"

text \<open>
  \<^verbatim>\<open>a / b\<close> on two floats: \<^verbatim>\<open>ZeroDivisionError\<close> when \<open>b\<close> is zero, the IEEE quotient
  otherwise.
\<close>

fun float_truediv :: "pyfloat \<Rightarrow> pyfloat \<Rightarrow> py_error + pyfloat" where
  "float_truediv a b =
     (if float_is_zero b then Inl ZeroDivisionError
      else Inr (case (a, b) of
          (NaN, _) \<Rightarrow> NaN
        | (_, NaN) \<Rightarrow> NaN
        | (Finite x, Finite y) \<Rightarrow> binary64_round (x / y)
        | (Finite x, _) \<Rightarrow> Finite 0
        | (PosInf, Finite y) \<Rightarrow> (if 0 < y then PosInf else NegInf)
        | (NegInf, Finite y) \<Rightarrow> (if 0 < y then NegInf else PosInf)
        | (_, _) \<Rightarrow> NaN))"

text \<open>
  \<^verbatim>\<open>x or 0.0\<close> for a nullable float column: \<^verbatim>\<open>None\<close> and zero are falsy, every other
  float (NaN too) is kept.
\<close>

definition float_or_zero :: "pyfloat option \<Rightarrow> pyfloat" where
  "float_or_zero x =
     (case x of None \<Rightarrow> Finite 0
      | Some v \<Rightarrow> (if float_is_zero v then Finite 0 else v))"

text \<open>The float literals of the source, as the binary64 values they denote.\<close>

definition lit_0_1 :: pyfloat where
  "lit_0_1 = Finite (3602879701896397 / 36028797018963968)"

definition lit_0_05 :: pyfloat where
  "lit_0_05 = Finite (3602879701896397 / 72057594037927936)"

definition lit_2_0 :: pyfloat where
  "lit_2_0 = Finite 2"

definition lit_5_0 :: pyfloat where
  "lit_5_0 = Finite 5"

section \<open>The data model\<close>

text \<open>
  The columns of \<^verbatim>\<open>Company\<close> and \<^verbatim>\<open>Grant\<close> (\<^verbatim>\<open>app/models.py\<close>) that the matcher
  reads. A nullable column is an \<open>option\<close>; the primary key \<^verbatim>\<open>id\<close> is \<open>c_id\<close> and
  \<open>g_id\<close>.
\<close>

record company =
  c_id :: int
  company_name :: "string option"
  sector :: "string option"
  business_stage :: "string option"
  nationality :: "string option"
  funding_need_usd :: "pyfloat option"

record grant =
  g_id :: int
  program_name :: "string option"
  institution_name :: "string option"
  country :: "string option"
  geographic_scope :: "string option"
  target_sectors :: "string option"
  estimated_value_amount :: "pyfloat option"
  website_url :: "string option"
  data_source_url :: "string option"
  repayment_required :: "bool option"

section \<open>The four sub-scores\<close>

text \<open>
  The scores are the float literals \<^verbatim>\<open>0.0\<close>, \<^verbatim>\<open>7.0\<close>, ..., \<^verbatim>\<open>40.0\<close> and sums of at
  most four of them: whole numbers up to 100, on which binary64 addition is exact. They
  are held as rationals. The leading underscore of the method names is dropped.
\<close>

definition africa_countries :: "string list" where
  "africa_countries =
     [''nigeria'', ''kenya'', ''south africa'', ''ghana'', ''uganda'', ''egypt'',
      ''tanzania'', ''rwanda'', ''ethiopia'', ''senegal'', ''botswana'', ''zambia'',
      ''zimbabwe'', ''morocco'', ''tunisia'', ''algeria'', ''libya'', ''cameroon'',
      ''ivory coast'', ''mali'', ''burkina faso'', ''niger'', ''madagascar'']"

definition score_geography :: "company \<Rightarrow> grant \<Rightarrow> rat" where
  "score_geography c g =
     (let company_country = norm_text (nationality c);
          grant_scope = norm_text (geographic_scope g);
          grant_country = norm_text (country g)
      in if str_in ''global'' grant_scope then 40
         else if str_in company_country grant_country \<or> str_in company_country grant_scope
           then 40
         else if company_country \<in> set africa_countries
                 \<and> (str_in ''africa'' grant_scope \<or> str_in ''african'' grant_scope)
           then 35
         else 0)"

definition score_sector :: "company \<Rightarrow> grant \<Rightarrow> rat" where
  "score_sector c g =
     (let company_sector = norm_text (sector c);
          target = norm_text (target_sectors g)
      in if list_ex (\<lambda>keyword. str_in keyword target) [''all'', ''general'', ''any'']
           then 25
         else if str_in company_sector target then 30
         else if list_ex (\<lambda>word. str_in word target)
                   (filter (\<lambda>word. 3 < length word) (split company_sector))
           then 20
         else 10)"

definition score_funding_amount :: "company \<Rightarrow> grant \<Rightarrow> py_error + rat" where
  "score_funding_amount c g =
     (let need = float_or_zero (funding_need_usd c);
          available = float_or_zero (estimated_value_amount g)
      in if float_is_zero available \<or> float_is_zero need then Inr 15
         else
           (case float_truediv need available of
              Inl e \<Rightarrow> Inl e
            | Inr ratio \<Rightarrow>
                if float_le lit_0_1 ratio \<and> float_le ratio lit_2_0 then Inr 20
                else if float_le lit_0_05 ratio \<and> float_le ratio lit_5_0 then Inr 15
                else Inr 8))"

definition score_business_stage :: "company \<Rightarrow> grant \<Rightarrow> rat" where
  "score_business_stage c g =
     (let stage = norm_text (business_stage c)
      in if stage \<in> set [''startup'', ''early growth''] then 10
         else if stage = ''idea'' then 8
         else if stage \<in> set [''growth'', ''scale-up'', ''expansion''] then 9
         else 7)"

section \<open>The composite score\<close>

text \<open>The breakdown is a dict from the four dimension names to their sub-scores.\<close>

type_synonym breakdown = "string \<rightharpoonup> rat"

definition calculate_match_score :: "company \<Rightarrow> grant \<Rightarrow> py_error + (rat \<times> breakdown)" where
  "calculate_match_score c g =
     (let score = 0;
          breakdown = Map.empty;
          geo_score = score_geography c g;
          score = score + geo_score;
          breakdown = breakdown(''geographic'' \<mapsto> geo_score);
          sector_score = score_sector c g;
          score = score + sector_score;
          breakdown = breakdown(''sector'' \<mapsto> sector_score)
      in case score_funding_amount c g of
           Inl e \<Rightarrow> Inl e
         | Inr amount_score \<Rightarrow>
             (let score = score + amount_score;
                  breakdown = breakdown(''amount_fit'' \<mapsto> amount_score);
                  stage_score = score_business_stage c g;
                  score = score + stage_score;
                  breakdown = breakdown(''stage'' \<mapsto> stage_score)
              in Inr (min 100 score, breakdown)))"

section \<open>Ranking\<close>

text \<open>
  One entry of the result list: the dict built in \<^verbatim>\<open>find_matches\<close>. Its keys carry the
  prefix \<open>match_\<close> where the grant has a column of the same name.
\<close>

record match =
  match_grant :: grant
  match_program_name :: string
  match_institution :: string
  match_country :: string
  match_funding_amount :: pyfloat
  match_score :: rat
  score_breakdown :: breakdown
  match_target_sectors :: string
  match_website :: string
  match_data_source_url :: string
  match_repayment_required :: string

text \<open>\<^verbatim>\<open>x or default\<close> for a nullable text column.\<close>

definition str_or :: "string option \<Rightarrow> string \<Rightarrow> string" where
  "str_or x dflt =
     (case x of None \<Rightarrow> dflt | Some s \<Rightarrow> (if s = [] then dflt else s))"

text \<open>
  \<^verbatim>\<open>round(x, 1)\<close>: the nearest multiple of one tenth, ties to even. The matcher passes
  whole numbers only, which it leaves as they are.
\<close>

definition round1 :: "rat \<Rightarrow> rat" where
  "round1 x = of_int (round_half_even (x * 10)) / 10"

definition make_match :: "grant \<Rightarrow> rat \<Rightarrow> breakdown \<Rightarrow> match" where
  "make_match g score bd =
     \<lparr>match_grant = g,
      match_program_name = str_or (program_name g) ''Unknown Program'',
      match_institution = str_or (institution_name g) ''Unknown Institution'',
      match_country = str_or (country g) ''Unknown'',
      match_funding_amount = float_or_zero (estimated_value_amount g),
      match_score = round1 score,
      score_breakdown = bd,
      match_target_sectors = str_or (target_sectors g) ''General'',
      match_website = str_or (website_url g) ''Not available'',
      match_data_source_url = str_or (data_source_url g) ''Not available'',
      match_repayment_required =
        (case repayment_required g of
           None \<Rightarrow> ''Unknown''
         | Some b \<Rightarrow> (if b then ''True'' else ''False''))\<rparr>"

text \<open>
  The loop over the grants: \<open>matches\<close> is the list built so far, and an exception of the
  scoring ends the loop.
\<close>

fun match_loop :: "company \<Rightarrow> grant list \<Rightarrow> match list \<Rightarrow> py_error + match list" where
  "match_loop c [] matches = Inr matches"
| "match_loop c (g # gs) matches =
     (case calculate_match_score c g of
        Inl e \<Rightarrow> Inl e
      | Inr (score, bd) \<Rightarrow>
          if 30 < score then match_loop c gs (matches @ [make_match g score bd])
          else match_loop c gs matches)"

text \<open>
  \<^verbatim>\<open>sorted(xs, key=key, reverse=True)\<close>: the list is reversed, sorted by a stable
  ascending sort and reversed again, so equal keys keep the order they came in.
\<close>

definition sorted_reverse :: "('a \<Rightarrow> rat) \<Rightarrow> 'a list \<Rightarrow> 'a list" where
  "sorted_reverse key xs = rev (sort_key key (rev xs))"

text \<open>\<^verbatim>\<open>xs[:n]\<close>: a negative \<open>n\<close> counts from the end.\<close>

definition slice_to :: "int \<Rightarrow> 'a list \<Rightarrow> 'a list" where
  "slice_to n xs = (if 0 \<le> n then take (nat n) xs else take (length xs - nat (- n)) xs)"

text \<open>
  The database session: the two tables, and the reads made through it so far, in order.
\<close>

datatype db_read = ReadCompany int | ReadGrants

record session =
  companies :: "company list"
  grants :: "grant list"
  reads :: "db_read list"

text \<open>\<^verbatim>\<open>db.query(Company).filter(Company.id == company_id).first()\<close>\<close>

definition query_company_first :: "session \<Rightarrow> int \<Rightarrow> company option \<times> session" where
  "query_company_first s company_id =
     (find (\<lambda>c. c_id c = company_id) (companies s),
      s\<lparr>reads := reads s @ [ReadCompany company_id]\<rparr>)"

text \<open>\<^verbatim>\<open>db.query(Grant).all()\<close>\<close>

definition query_grant_all :: "session \<Rightarrow> grant list \<times> session" where
  "query_grant_all s = (grants s, s\<lparr>reads := reads s @ [ReadGrants]\<rparr>)"

text \<open>
  \<^verbatim>\<open>find_matches\<close>, with the session passed in and returned. The two log lines do not
  touch the result and are left out.
\<close>

definition find_matches ::
  "session \<Rightarrow> int \<Rightarrow> int \<Rightarrow> (py_error + company \<times> match list) \<times> session" where
  "find_matches s company_id top_n =
     (case query_company_first s company_id of
        (None, s1) \<Rightarrow> (Inl ValueError, s1)
      | (Some c, s1) \<Rightarrow>
          (case query_grant_all s1 of
             (gs, s2) \<Rightarrow>
               (case match_loop c gs [] of
                  Inl e \<Rightarrow> (Inl e, s2)
                | Inr matches \<Rightarrow>
                    (Inr (c, slice_to top_n (sorted_reverse match_score matches)), s2))))"

text \<open>
  What one pass of the loop body adds to the list: the entry of a grant whose score is
  above the threshold, nothing otherwise.
\<close>

definition entry_of :: "company \<Rightarrow> grant \<Rightarrow> match option" where
  "entry_of c g =
     (case calculate_match_score c g of
        Inl e \<Rightarrow> None
      | Inr (score, bd) \<Rightarrow> (if 30 < score then Some (make_match g score bd) else None))"

section \<open>The endpoint\<close>

text \<open>
  \<^verbatim>\<open>POST /match/{company_id}\<close> of \<^verbatim>\<open>app/api/endpoints.py\<close>. \<^verbatim>\<open>top_n\<close> is declared
  \<^verbatim>\<open>Query(5, ge=1, le=20)\<close>, so the framework answers 422 outside that range and the body
  does not run. The text generator is the parameter \<open>ai\<close>, and the response holds the
  entries as \<^verbatim>\<open>find_matches\<close> returned them.
\<close>

datatype http_result =
  HTTPException nat
| MatchResponse company "match list" string nat

definition match_company_with_grants ::
  "(company \<Rightarrow> match \<Rightarrow> string) \<Rightarrow> session \<Rightarrow> int \<Rightarrow> int \<Rightarrow> http_result \<times> session" where
  "match_company_with_grants ai s company_id top_n =
     (if top_n < 1 \<or> 20 < top_n then (HTTPException 422, s)
      else
        (case find_matches s company_id top_n of
           (Inl ValueError, s') \<Rightarrow> (HTTPException 404, s')
         | (Inl _, s') \<Rightarrow> (HTTPException 500, s')
         | (Inr (c, matches), s') \<Rightarrow>
             (case matches of
                [] \<Rightarrow>
                  (MatchResponse c [] ''No suitable matches found with score > 30.'' 0, s')
              | m # _ \<Rightarrow> (MatchResponse c matches (ai c m) (length matches), s'))))"

section \<open>The rules as the specification words them\<close>

text \<open>
  The amount-fit rule on a ratio, with the bounds read as the decimal numbers one tenth
  and one twentieth.
\<close>

definition amount_fit_rule :: "pyfloat \<Rightarrow> rat" where
  "amount_fit_rule ratio =
     (if float_le (Finite (1 / 10)) ratio \<and> float_le ratio (Finite 2) then 20
      else if float_le (Finite (1 / 20)) ratio \<and> float_le ratio (Finite 5) then 15
      else 8)"

text \<open>
  A whitespace-delimited word of a text: a non-empty block without white space that is
  bounded on each side by white space or by the end of the text.
\<close>

definition word_of :: "string \<Rightarrow> string \<Rightarrow> bool" where
  "word_of w s \<longleftrightarrow>
     w \<noteq> [] \<and> \<not> list_ex isspace w
     \<and> (\<exists>pre post. s = pre @ w @ post
           \<and> (pre = [] \<or> isspace (last pre)) \<and> (post = [] \<or> isspace (hd post)))"

text \<open>A funding amount that is absent or zero.\<close>

definition unknown_amount :: "pyfloat option \<Rightarrow> bool" where
  "unknown_amount x = (case x of None \<Rightarrow> True | Some v \<Rightarrow> float_is_zero v)"

section \<open>Sample records\<close>

text \<open>The company and the grant of the specification's worked scenario.\<close>

definition c_kenya :: company where
  "c_kenya =
     \<lparr>c_id = 1, company_name = Some ''Shamba Ltd'', sector = Some ''agriculture'',
      business_stage = Some ''startup'', nationality = Some ''Kenya'',
      funding_need_usd = Some (Finite 50000)\<rparr>"

definition g_africa :: grant where
  "g_africa =
     \<lparr>g_id = 1, program_name = Some ''Agri Fund'', institution_name = None,
      country = Some [], geographic_scope = Some ''Africa-wide'',
      target_sectors = Some ''agriculture, agritech'',
      estimated_value_amount = Some (Finite 100000), website_url = None,
      data_source_url = None, repayment_required = None\<rparr>"

text \<open>A global grant open to every sector, and a grant for one country and sector.\<close>

definition g_global :: grant where
  "g_global =
     \<lparr>g_id = 2, program_name = Some ''World Fund'', institution_name = Some ''WF'',
      country = None, geographic_scope = Some ''Global'',
      target_sectors = Some ''general support for all sectors'',
      estimated_value_amount = Some (Finite 100000), website_url = None,
      data_source_url = None, repayment_required = Some False\<rparr>"

definition g_peru :: grant where
  "g_peru =
     \<lparr>g_id = 3, program_name = Some ''Lima Mining Fund'', institution_name = None,
      country = Some ''Peru'', geographic_scope = Some ''Peru'',
      target_sectors = Some ''mining'',
      estimated_value_amount = Some (Finite 10), website_url = None,
      data_source_url = None, repayment_required = Some True\<rparr>"

text \<open>A company with every optional value missing or blank.\<close>

definition c_blank :: company where
  "c_blank =
     \<lparr>c_id = 2, company_name = None, sector = Some ''  '', business_stage = None,
      nationality = None, funding_need_usd = Some (Finite 0)\<rparr>"

definition c_tech :: company where
  "c_tech = c_kenya\<lparr>c_id := 3, sector := Some ''Technology''\<rparr>"

definition c_miner :: company where
  "c_miner = c_kenya\<lparr>c_id := 4, sector := Some ''Deep Mining''\<rparr>"

definition db0 :: session where
  "db0 = \<lparr>companies = [c_kenya, c_blank, c_tech], grants = [g_peru, g_africa, g_global],
     reads = []\<rparr>"

section \<open>Facts about the text operations\<close>

lemma str_in_iff_sublist: "str_in sub s \<longleftrightarrow> sublist sub s"
  by (induction s) (auto simp: sublist_Cons_right)

lemma str_in_iff: "str_in sub s \<longleftrightarrow> (\<exists>ps ss. s = ps @ sub @ ss)"
  by (simp add: str_in_iff_sublist sublist_def)

lemma str_in_empty: "str_in [] s"
  by (simp add: str_in_iff_sublist)

lemma of_char_lower_char:
  "is_upper c \<Longrightarrow> (of_char (lower_char c) :: nat) = of_char c + 32"
  by (auto simp: lower_char_def is_upper_def Let_def)

lemma isspace_lower_char: "isspace (lower_char c) = isspace c"
proof (cases "is_upper c")
  case True
  then show ?thesis
    using of_char_lower_char [OF True]
    by (auto simp: isspace_def whitespace_cps_def is_upper_def Let_def)
next
  case False
  then show ?thesis by (simp add: lower_char_def)
qed

lemma dropWhile_isspace_lower:
  "dropWhile isspace (lower s) = lower (dropWhile isspace s)"
  by (induction s) (auto simp: lower_def isspace_lower_char)

lemma rev_lower: "rev (lower s) = lower (rev s)"
  by (simp add: lower_def rev_map)

lemma strip_lower: "strip (lower s) = lower (strip s)"
  by (simp add: strip_def dropWhile_isspace_lower rev_lower)

lemma norm_text_None: "norm_text None = []"
  by (simp add: norm_text_def str_or_empty_def strip_def lower_def)

lemma norm_text_Some: "norm_text (Some s) = lower (strip s)"
  by (simp add: norm_text_def str_or_empty_def strip_lower)

lemma norm_text_blank:
  "x = None \<or> (\<exists>s. x = Some s \<and> strip s = []) \<Longrightarrow> norm_text x = []"
  by (auto simp: norm_text_None norm_text_Some lower_def)

text \<open>\<open>split\<close> returns exactly the whitespace-delimited words.\<close>

lemma word_of_Nil: "\<not> word_of w []"
  by (auto simp: word_of_def)

lemma word_of_space_Cons:
  assumes "isspace c"
  shows "word_of w (c # cs) \<longleftrightarrow> word_of w cs"
proof
  assume "word_of w (c # cs)"
  then obtain pre post where w: "w \<noteq> []" "\<not> list_ex isspace w"
    and eq: "c # cs = pre @ w @ post"
    and pre: "pre = [] \<or> isspace (last pre)" and post: "post = [] \<or> isspace (hd post)"
    by (auto simp: word_of_def)
  have "pre \<noteq> []"
  proof
    assume "pre = []"
    with eq w(1) have "hd w = c" by (cases w) auto
    with w assms show False by (cases w) (auto simp: list_ex_iff)
  qed
  then obtain pre' where pre': "pre = c # pre'" "cs = pre' @ w @ post"
    using eq by (cases pre) auto
  have "pre' = [] \<or> isspace (last pre')"
    using pre pre'(1) by (auto split: if_splits)
  with w pre'(2) post show "word_of w cs"
    by (auto simp: word_of_def)
next
  assume "word_of w cs"
  then obtain pre post where w: "w \<noteq> []" "\<not> list_ex isspace w"
    and eq: "cs = pre @ w @ post"
    and pre: "pre = [] \<or> isspace (last pre)" and post: "post = [] \<or> isspace (hd post)"
    by (auto simp: word_of_def)
  have "c # cs = (c # pre) @ w @ post" using eq by simp
  moreover have "isspace (last (c # pre))" using pre assms by auto
  ultimately show "word_of w (c # cs)"
    unfolding word_of_def using w post by blast
qed

lemma word_of_run_space:
  assumes u: "u \<noteq> []" "\<not> list_ex isspace u" and c: "isspace c"
  shows "word_of w (u @ c # cs) \<longleftrightarrow> w = u \<or> word_of w cs"
proof
  assume "word_of w (u @ c # cs)"
  then obtain pre post where w: "w \<noteq> []" "\<not> list_ex isspace w"
    and eq: "u @ c # cs = pre @ w @ post"
    and pre: "pre = [] \<or> isspace (last pre)" and post: "post = [] \<or> isspace (hd post)"
    by (auto simp: word_of_def)
  show "w = u \<or> word_of w cs"
  proof (cases "pre = []")
    case True
    with eq have eq': "u @ c # cs = w @ post" by simp
    then obtain vs where "u = w @ vs \<and> vs @ c # cs = post \<or> u @ vs = w \<and> c # cs = vs @ post"
      unfolding append_eq_append_conv2 by blast
    then consider (a) us where "u = w @ us" "post = us @ c # cs"
      | (b) ws where "w = u @ ws" "ws \<noteq> []" "c # cs = ws @ post"
      by (cases "vs = []") auto
    then show ?thesis
    proof cases
      case a
      show ?thesis
      proof (cases us)
        case Nil
        with a show ?thesis by simp
      next
        case (Cons x xs)
        with a post have "isspace x" by simp
        moreover have "x \<in> set u" using a Cons by simp
        ultimately show ?thesis using u(2) by (auto simp: list_ex_iff)
      qed
    next
      case b
      then have "c \<in> set w" by (cases ws) auto
      with c w(2) show ?thesis by (auto simp: list_ex_iff)
    qed
  next
    case False
    with pre have sp: "isspace (last pre)" by simp
    from eq obtain vs where
      "u = pre @ vs \<and> vs @ c # cs = w @ post \<or> u @ vs = pre \<and> c # cs = vs @ w @ post"
      unfolding append_eq_append_conv2 by blast
    then consider (a) us where "u = pre @ us" "us @ c # cs = w @ post"
      | (b) ps where "pre = u @ ps" "ps \<noteq> []" "c # cs = ps @ w @ post"
      by (cases "vs = []") auto
    then show ?thesis
    proof cases
      case a
      with False have "last pre \<in> set u" by simp
      with sp u(2) show ?thesis by (auto simp: list_ex_iff)
    next
      case b
      then obtain ps' where ps': "ps = c # ps'" "cs = ps' @ w @ post"
        by (cases ps) auto
      have "ps' = [] \<or> isspace (last ps')"
        using sp b(1) ps'(1) by (auto split: if_splits)
      with w ps'(2) post show ?thesis
        by (auto simp: word_of_def)
    qed
  qed
next
  assume "w = u \<or> word_of w cs"
  then show "word_of w (u @ c # cs)"
  proof
    assume "w = u"
    then have "u @ c # cs = [] @ w @ (c # cs)" by simp
    then show ?thesis
      unfolding word_of_def using u c \<open>w = u\<close> by (metis list.sel(1))
  next
    assume "word_of w cs"
    then obtain pre post where w: "w \<noteq> []" "\<not> list_ex isspace w"
      and eq: "cs = pre @ w @ post"
      and pre: "pre = [] \<or> isspace (last pre)" and post: "post = [] \<or> isspace (hd post)"
      by (auto simp: word_of_def)
    have "u @ c # cs = (u @ c # pre) @ w @ post" using eq by simp
    moreover have "isspace (last (u @ c # pre))" using pre c by auto
    ultimately show ?thesis
      unfolding word_of_def using w post by blast
  qed
qed

lemma word_of_run:
  assumes u: "\<not> list_ex isspace u"
  shows "word_of w u \<longleftrightarrow> w = u \<and> u \<noteq> []"
proof
  assume "word_of w u"
  then obtain pre post where w: "w \<noteq> []"
    and eq: "u = pre @ w @ post"
    and pre: "pre = [] \<or> isspace (last pre)" and post: "post = [] \<or> isspace (hd post)"
    by (auto simp: word_of_def)
  have "pre = []"
  proof (rule ccontr)
    assume "pre \<noteq> []"
    with pre eq have "isspace (last pre)" "last pre \<in> set u" by auto
    with u show False by (auto simp: list_ex_iff)
  qed
  moreover have "post = []"
  proof (rule ccontr)
    assume "post \<noteq> []"
    with post eq have "isspace (hd post)" "hd post \<in> set u" by auto
    with u show False by (auto simp: list_ex_iff)
  qed
  ultimately show "w = u \<and> u \<noteq> []" using eq w by simp
next
  assume wu: "w = u \<and> u \<noteq> []"
  then have "u = [] @ w @ [] \<and> ([] = [] \<or> isspace (last [])) \<and> ([] = [] \<or> isspace (hd []))"
    by simp
  then have "\<exists>pre post. u = pre @ w @ post
      \<and> (pre = [] \<or> isspace (last pre)) \<and> (post = [] \<or> isspace (hd post))"
    by (intro exI)
  then show "word_of w u"
    unfolding word_of_def using u wu by simp
qed

lemma set_split_from:
  assumes "\<not> list_ex isspace acc"
  shows "set (split_from acc s) = {w. word_of w (rev acc @ s)}"
  using assms
proof (induction s arbitrary: acc)
  case Nil
  then have "\<not> list_ex isspace (rev acc)" by (simp add: list_ex_iff)
  then show ?case
    by (auto simp: word_of_run)
next
  case (Cons c cs)
  have nil: "\<not> list_ex isspace []" by simp
  show ?case
  proof (cases "isspace c")
    case True
    show ?thesis
    proof (cases "acc = []")
      case True
      with \<open>isspace c\<close> Cons.IH[OF nil] show ?thesis
        by (simp add: word_of_space_Cons)
    next
      case False
      have r: "rev acc \<noteq> []" "\<not> list_ex isspace (rev acc)"
        using False Cons.prems by (simp_all add: list_ex_iff)
      show ?thesis
        using False \<open>isspace c\<close> Cons.IH[OF nil] word_of_run_space[OF r \<open>isspace c\<close>]
        by auto
    qed
  next
    case False
    then have "\<not> list_ex isspace (c # acc)" using Cons.prems by simp
    from Cons.IH[OF this] False show ?thesis by simp
  qed
qed

lemma set_split: "set (split s) = {w. word_of w s}"
  using set_split_from[of "[]" s] by (simp add: split_def)

section \<open>The sub-score rules\<close>

text \<open>
  C3. The geography sub-score follows the ordered rules on the lowercased, trimmed texts:
  40 when the scope contains "global"; else 40 when the nationality is a substring of the
  grant country or of the scope; else 35 when the nationality is one of the 23 listed
  African countries and the scope contains "africa" or "african"; else 0. In particular a
  scope that contains "global" gives 40 whatever the company is.
\<close>

theorem geography_rule:
  "score_geography c g =
     (let nat_c = norm_text (nationality c);
          scope = norm_text (geographic_scope g);
          ctry = norm_text (country g)
      in if sublist ''global'' scope then 40
         else if sublist nat_c ctry \<or> sublist nat_c scope then 40
         else if nat_c \<in> {''nigeria'', ''kenya'', ''south africa'', ''ghana'', ''uganda'',
                    ''egypt'', ''tanzania'', ''rwanda'', ''ethiopia'', ''senegal'', ''botswana'',
                    ''zambia'', ''zimbabwe'', ''morocco'', ''tunisia'', ''algeria'', ''libya'',
                    ''cameroon'', ''ivory coast'', ''mali'', ''burkina faso'', ''niger'',
                    ''madagascar''}
                 \<and> (sublist ''africa'' scope \<or> sublist ''african'' scope) then 35
         else 0)
   \<and> (sublist ''global'' (norm_text (geographic_scope g)) \<longrightarrow> score_geography c g = 40)"
  unfolding score_geography_def Let_def str_in_iff_sublist africa_countries_def
  by (simp only: set_simps) simp

theorem geography_rule_witness:
  "sublist ''global'' (norm_text (geographic_scope g_global))
   \<and> score_geography c_kenya g_global = 40"
proof -
  have scope: "norm_text (geographic_scope g_global) = ''global''"
    by code_simp
  have hyp: "sublist ''global'' (norm_text (geographic_scope g_global))"
    by (simp add: scope)
  from geography_rule [of c_kenya g_global] hyp show ?thesis
    by blast
qed

text \<open>
  C6. The stage sub-score depends on the company alone. On the lowercased, trimmed stage
  it is 10 for "startup" and "early growth", 8 for "idea", 9 for "growth", "scale-up" and
  "expansion", and 7 for everything else, the empty text included.
\<close>

theorem stage_rule:
  "score_business_stage c g =
     (let stage = norm_text (business_stage c)
      in if stage = ''startup'' \<or> stage = ''early growth'' then 10
         else if stage = ''idea'' then 8
         else if stage = ''growth'' \<or> stage = ''scale-up'' \<or> stage = ''expansion'' then 9
         else 7)
   \<and> score_business_stage c g = score_business_stage c g'
   \<and> (norm_text (business_stage c) = [] \<longrightarrow> score_business_stage c g = 7)"
  by (simp add: score_business_stage_def Let_def)

theorem stage_rule_witness:
  "norm_text (business_stage c_blank) = [] \<and> score_business_stage c_blank g_peru = 7"
proof -
  have hyp: "norm_text (business_stage c_blank) = []"
    by code_simp
  from stage_rule [of c_blank g_peru g_peru] hyp show ?thesis
    by blast
qed

text \<open>
  C4. The sector sub-score follows the ordered rules on the lowercased, trimmed texts: 25
  when the target sectors contain "all", "general" or "any" (checked first); else 30 when
  the company sector is a substring of the target sectors; else 20 when a
  whitespace-delimited word of the company sector with more than 3 characters is a
  substring of them; else 10. It is never 0.
\<close>

theorem sector_rule:
  "score_sector c g =
     (let sec = norm_text (sector c);
          target = norm_text (target_sectors g)
      in if sublist ''all'' target \<or> sublist ''general'' target \<or> sublist ''any'' target then 25
         else if sublist sec target then 30
         else if \<exists>word. word_of word sec \<and> 3 < length word \<and> sublist word target then 20
         else 10)
   \<and> score_sector c g \<noteq> 0"
proof -
  have words: "list_ex (\<lambda>word. str_in word t) (filter (\<lambda>word. 3 < length word) (split s))
      \<longleftrightarrow> (\<exists>word. word_of word s \<and> 3 < length word \<and> sublist word t)" for s t
    using set_split [of s] by (auto simp: list_ex_iff str_in_iff_sublist)
  show ?thesis
    unfolding score_sector_def Let_def words
    by (simp add: str_in_iff_sublist)
qed

theorem sector_rule_witness:
  "score_sector c_tech g_global = 25
   \<and> word_of ''mining'' (norm_text (sector c_miner))
   \<and> score_sector c_miner g_peru = 20"
proof -
  have tech: "norm_text (sector c_tech) = ''technology''"
    and miner: "norm_text (sector c_miner) = ''deep mining''"
    and global: "norm_text (target_sectors g_global) = ''general support for all sectors''"
    and peru: "norm_text (target_sectors g_peru) = ''mining''"
    by code_simp+
  have words: "split ''deep mining'' = [''deep'', ''mining'']"
    by code_simp
  have yes: "sublist ''all'' ''general support for all sectors''"
      "sublist ''mining'' ''mining''"
    unfolding str_in_iff_sublist [symmetric] by code_simp+
  have no: "\<not> sublist ''all'' ''mining''" "\<not> sublist ''general'' ''mining''"
      "\<not> sublist ''any'' ''mining''" "\<not> sublist ''deep mining'' ''mining''"
    unfolding str_in_iff_sublist [symmetric] by code_simp+
  have "''mining'' \<in> set (split ''deep mining'')"
    by (simp add: words)
  then have word: "word_of ''mining'' ''deep mining''"
    unfolding set_split by simp
  have "score_sector c_tech g_global = 25"
    using sector_rule [of c_tech g_global] yes(1) by (simp add: tech global)
  moreover have "score_sector c_miner g_peru = 20"
  proof -
    have "\<exists>w. word_of w ''deep mining'' \<and> 3 < length w \<and> sublist w ''mining''"
      using word yes(2) by (intro exI [of _ "''mining''"]) simp
    with sector_rule [of c_miner g_peru] no show ?thesis
      by (simp add: miner peru)
  qed
  ultimately show ?thesis
    using word by (simp add: miner)
qed

text \<open>
  C9. A company whose nationality is null or trims to the empty text gets the full
  geography sub-score of 40 against every grant: the empty text is a substring of every
  text, so the second rule fires whenever the first does not.
\<close>

theorem blank_nationality_geography:
  assumes "nationality c = None \<or> (\<exists>s. nationality c = Some s \<and> strip s = [])"
  shows "score_geography c g = 40"
proof -
  have "norm_text (nationality c) = []"
    using assms by (rule norm_text_blank)
  then show ?thesis
    by (simp add: score_geography_def Let_def str_in_empty)
qed

theorem blank_nationality_geography_witness:
  "nationality c_blank = None \<and> score_geography c_blank g_peru = 40"
proof -
  have hyp: "nationality c_blank = None"
    by (simp add: c_blank_def)
  then have "nationality c_blank = None \<or> (\<exists>s. nationality c_blank = Some s \<and> strip s = [])"
    by simp
  from blank_nationality_geography [OF this, of g_peru] hyp show ?thesis
    by simp
qed

text \<open>
  C10. A company whose sector is null or trims to the empty text gets the sector
  sub-score 25 when the target sectors contain "all", "general" or "any", and 30
  otherwise; 20 and 10 cannot occur.
\<close>

theorem blank_sector_score:
  assumes "sector c = None \<or> (\<exists>s. sector c = Some s \<and> strip s = [])"
  shows "score_sector c g =
     (let target = norm_text (target_sectors g)
      in if sublist ''all'' target \<or> sublist ''general'' target \<or> sublist ''any'' target
         then 25 else 30)"
proof -
  have "norm_text (sector c) = []"
    using assms by (rule norm_text_blank)
  then show ?thesis
    by (simp add: score_sector_def Let_def str_in_empty str_in_iff_sublist)
qed

theorem blank_sector_score_witness:
  "(\<exists>s. sector c_blank = Some s \<and> strip s = [])
   \<and> score_sector c_blank g_peru = 30 \<and> score_sector c_blank g_global = 25"
proof -
  have s: "sector c_blank = Some ''  ''"
    by (simp add: c_blank_def)
  have e: "strip ''  '' = []"
    by code_simp
  have hyp: "\<exists>s. sector c_blank = Some s \<and> strip s = []"
    using s e by simp
  then have h: "sector c_blank = None \<or> (\<exists>s. sector c_blank = Some s \<and> strip s = [])"
    by simp
  have global: "norm_text (target_sectors g_global) = ''general support for all sectors''"
    and peru: "norm_text (target_sectors g_peru) = ''mining''"
    by code_simp+
  have yes: "sublist ''all'' ''general support for all sectors''"
    unfolding str_in_iff_sublist [symmetric] by code_simp
  have no: "\<not> sublist ''all'' ''mining''" "\<not> sublist ''general'' ''mining''"
      "\<not> sublist ''any'' ''mining''"
    unfolding str_in_iff_sublist [symmetric] by code_simp+
  have "score_sector c_blank g_peru = 30"
    using blank_sector_score [OF h, of g_peru] no by (simp add: peru)
  moreover have "score_sector c_blank g_global = 25"
    using blank_sector_score [OF h, of g_global] yes by (simp add: global)
  ultimately show ?thesis using hyp by blast
qed

section \<open>Facts about binary64 rounding\<close>

lemma pow2_powi: "pow2 k = 2 powi k"
  by (simp add: pow2_def power_int_def inverse_eq_divide power_one_over)

lemma pow2_pos: "0 < pow2 k"
  by (simp add: pow2_powi)

lemma pow2_add: "pow2 (j + k) = pow2 j * pow2 k"
  by (simp add: pow2_powi power_int_add)

lemma pow2_mono: "j \<le> k \<Longrightarrow> pow2 j \<le> pow2 k"
  by (simp add: pow2_powi power_int_increasing)

lemma pow2_nat: "0 \<le> k \<Longrightarrow> pow2 k = of_int (2 ^ nat k)"
  by (simp add: pow2_def)

lemma floor_log2_upper:
  assumes "0 < a"
  shows "a < pow2 (floor_log2 a + 1)"
proof -
  obtain p q where pq: "quotient_of a = (p, q)"
    by (cases "quotient_of a")
  have q: "0 < q" using pq by (rule quotient_of_denom_pos)
  have a: "a = of_int p / of_int q" using pq by (rule quotient_of_div)
  have p: "0 < p" using assms q a by (simp add: zero_less_divide_iff)
  define e where "e = bitlen p - bitlen q"
  have fl: "floor_log2 a = (if pow2 e \<le> a then e else e - 1)"
    unfolding floor_log2_def pq e_def by (simp add: Let_def)
  have bq: "1 \<le> bitlen q" using q bitlen_ge_iff_power[of 1 q] by simp
  have bp: "0 \<le> bitlen p" by (rule bitlen_nonneg)
  have "p < 2 ^ nat (bitlen p)" using bitlen_bounds[OF p] by simp
  then have "(of_int p :: rat) < of_int (2 ^ nat (bitlen p))"
    by (simp only: of_int_less_iff)
  then have p_lt: "(of_int p :: rat) < pow2 (bitlen p)"
    using bp by (simp only: pow2_nat)
  have "2 ^ nat (bitlen q - 1) \<le> q" using bitlen_bounds[OF q] by simp
  then have "(of_int (2 ^ nat (bitlen q - 1)) :: rat) \<le> of_int q"
    by (simp only: of_int_le_iff)
  then have q_ge: "pow2 (bitlen q - 1) \<le> (of_int q :: rat)"
    using bq by (simp only: pow2_nat)
  have "a * of_int q = of_int p" using a q by simp
  also have "\<dots> < pow2 (bitlen p)" by (rule p_lt)
  also have "\<dots> = pow2 (e + 1) * pow2 (bitlen q - 1)"
    unfolding e_def by (simp flip: pow2_add)
  also have "\<dots> \<le> pow2 (e + 1) * of_int q"
    using q_ge pow2_pos[of "e + 1"] by (simp only: mult_le_cancel_left_pos)
  finally have "a * of_int q < pow2 (e + 1) * of_int q" .
  then have "a < pow2 (e + 1)"
    using q by (simp only: mult_less_cancel_right_pos of_int_0_less_iff)
  then show ?thesis
    unfolding fl by (auto simp: not_le)
qed

lemma round_half_even_bounds: "\<lfloor>x\<rfloor> \<le> round_half_even x \<and> round_half_even x \<le> \<lfloor>x\<rfloor> + 1"
  by (simp add: round_half_even_def Let_def)

lemma grid_cut:
  fixes t r :: rat and N m j k :: int
  assumes r: "r = of_int m * pow2 k" and m: "m \<le> 2 ^ 53"
    and lo: "of_int (N - 1) * pow2 (- j) < t" and hi: "t \<le> of_int N * pow2 (- j)"
    and small: "2 ^ 53 * pow2 (- j - 1) < t"
  shows "(of_int N * pow2 (- j) \<le> r) = (t \<le> r)"
proof
  assume "of_int N * pow2 (- j) \<le> r"
  with hi show "t \<le> r" by simp
next
  assume t: "t \<le> r"
  show "of_int N * pow2 (- j) \<le> r"
  proof (cases "- j \<le> k")
    case True
    define M where "M = m * 2 ^ nat (k + j)"
    have "k = (k + j) + (- j)" by simp
    then have "pow2 k = pow2 (k + j) * pow2 (- j)"
      by (metis pow2_add)
    also have "pow2 (k + j) = of_int (2 ^ nat (k + j))"
      using True by (simp add: pow2_nat)
    finally have rM: "r = of_int M * pow2 (- j)"
      by (simp add: r M_def)
    have "of_int (N - 1) * pow2 (- j) < of_int M * pow2 (- j)"
      using lo t rM by simp
    then have "(of_int (N - 1) :: rat) < of_int M"
      using pow2_pos[of "- j"] by (simp only: mult_less_cancel_right_pos)
    then have "N \<le> M" by simp
    then have "(of_int N :: rat) \<le> of_int M" by (simp only: of_int_le_iff)
    then show ?thesis
      unfolding rM using pow2_pos[of "- j"] by (simp only: mult_le_cancel_right_pos)
  next
    case False
    then have "k \<le> - j - 1" by simp
    then have "pow2 k \<le> pow2 (- j - 1)" by (rule pow2_mono)
    moreover have "(of_int m :: rat) \<le> 2 ^ 53"
      using m by (metis of_int_le_iff of_int_numeral of_int_power)
    ultimately have "of_int m * pow2 k \<le> 2 ^ 53 * pow2 (- j - 1)"
      using pow2_pos[of k] by (intro mult_mono) (simp_all add: less_imp_le pow2_pos)
    with small t r show ?thesis by simp
  qed
qed

lemma binary64_round_grid:
  assumes "binary64_round q = Finite r"
  shows "\<exists>m k. m \<le> 2 ^ 53 \<and> r = of_int m * pow2 k"
proof (cases "q = 0")
  case True
  with assms have "r = of_int 0 * pow2 0" by (simp add: binary64_round_def)
  then show ?thesis by (metis zero_le_numeral zero_le_power)
next
  case False
  define a where "a = \<bar>q\<bar>"
  define e where "e = max (floor_log2 a) (- 1022)"
  define m where "m = round_half_even (a / pow2 (e - 52))"
  have a: "0 < a" using False by (simp add: a_def)
  have "a < pow2 (floor_log2 a + 1)" using a by (rule floor_log2_upper)
  also have "\<dots> \<le> pow2 (e + 1)" by (rule pow2_mono) (simp add: e_def)
  also have "e + 1 = 53 + (e - 52)" by simp
  also have "pow2 (53 + (e - 52)) = pow2 53 * pow2 (e - 52)" by (rule pow2_add)
  finally have "a / pow2 (e - 52) < pow2 53"
    using pow2_pos[of "e - 52"] by (simp add: pos_divide_less_eq)
  then have "a / pow2 (e - 52) < of_int (2 ^ 53)" by (simp add: pow2_def)
  then have "\<lfloor>a / pow2 (e - 52)\<rfloor> < 2 ^ 53" by (simp only: floor_less_iff)
  then have m53: "m \<le> 2 ^ 53"
    unfolding m_def using round_half_even_bounds[of "a / pow2 (e - 52)"] by linarith
  have m0: "0 \<le> m"
  proof -
    have "0 \<le> a / pow2 (e - 52)" using a pow2_pos[of "e - 52"] by simp
    then have "0 \<le> \<lfloor>a / pow2 (e - 52)\<rfloor>" by (simp only: zero_le_floor)
    then show ?thesis
      unfolding m_def using round_half_even_bounds[of "a / pow2 (e - 52)"] by linarith
  qed
  from assms False have "r = of_int m * pow2 (e - 52) \<or> r = - (of_int m * pow2 (e - 52))"
    by (auto simp: binary64_round_def Let_def a_def e_def m_def split: if_splits)
  then show ?thesis
  proof
    assume "r = of_int m * pow2 (e - 52)"
    with m53 show ?thesis by blast
  next
    assume "r = - (of_int m * pow2 (e - 52))"
    then have "r = of_int (- m) * pow2 (e - 52)" by simp
    moreover have "- m \<le> 2 ^ 53" using m0 by simp
    ultimately show ?thesis by blast
  qed
qed

text \<open>
  The literals of the source are the binary64 values nearest to the decimals written, and
  the quotient of the floats \<^verbatim>\<open>0.3\<close> and \<^verbatim>\<open>3.0\<close> is the float just below \<^verbatim>\<open>0.1\<close>.
\<close>

lemma lit_0_1_nearest: "binary64_round (1 / 10) = lit_0_1"
  by code_simp

lemma lit_0_05_nearest: "binary64_round (1 / 20) = lit_0_05"
  by code_simp

lemma quotient_below_0_1:
  "float_truediv (Finite (5404319552844595 / 18014398509481984)) (Finite 3)
     = Inr (Finite (7205759403792793 / 72057594037927936))"
  by code_simp

lemma float_truediv_grid:
  assumes "float_truediv a b = Inr (Finite r)"
  shows "\<exists>m k. m \<le> 2 ^ 53 \<and> r = of_int m * pow2 k"
proof -
  have zero: "\<exists>m k. m \<le> 2 ^ 53 \<and> (0::rat) = of_int m * pow2 k"
    by (rule exI[of _ 0]) simp
  from assms consider x y where "binary64_round (x / y) = Finite r" | "r = 0"
    by (cases a; cases b) (auto split: if_splits)
  then show ?thesis
  proof cases
    case 1
    then show ?thesis by (rule binary64_round_grid)
  next
    case 2
    with zero show ?thesis by simp
  qed
qed

lemma lit_0_1_cut:
  assumes "float_truediv a b = Inr ratio"
  shows "float_le lit_0_1 ratio = float_le (Finite (1 / 10)) ratio"
proof (cases ratio)
  case (Finite r)
  with assms obtain m k where m: "m \<le> 2 ^ 53" and r: "r = of_int m * pow2 k"
    using float_truediv_grid by blast
  have "(of_int 7205759403792794 * pow2 (- 56) \<le> r) = (1 / 10 \<le> r)"
    using r m by (rule grid_cut) (simp_all add: pow2_def)
  then show ?thesis
    by (simp add: Finite lit_0_1_def pow2_def)
qed (simp_all add: lit_0_1_def)

lemma lit_0_05_cut:
  assumes "float_truediv a b = Inr ratio"
  shows "float_le lit_0_05 ratio = float_le (Finite (1 / 20)) ratio"
proof (cases ratio)
  case (Finite r)
  with assms obtain m k where m: "m \<le> 2 ^ 53" and r: "r = of_int m * pow2 k"
    using float_truediv_grid by blast
  have "(of_int 7205759403792794 * pow2 (- 57) \<le> r) = (1 / 20 \<le> r)"
    using r m by (rule grid_cut) (simp_all add: pow2_def)
  then show ?thesis
    by (simp add: Finite lit_0_05_def pow2_def)
qed (simp_all add: lit_0_05_def)

lemma unknown_amount_iff: "unknown_amount x \<longleftrightarrow> float_is_zero (float_or_zero x)"
  by (simp add: unknown_amount_def float_or_zero_def split: option.splits)

lemma float_or_zero_known: "\<not> unknown_amount x \<Longrightarrow> \<exists>v. x = Some v \<and> float_or_zero x = v"
  by (auto simp: unknown_amount_def float_or_zero_def split: option.splits)

text \<open>
  C5. The amount-fit sub-score is 15 when the funding need or the available amount is
  absent or zero. Otherwise, with \<open>ratio\<close> the float quotient of need by available, it is
  20 when \<open>0.1 \<le> ratio \<le> 2\<close>, else 15 when \<open>0.05 \<le> ratio \<le> 5\<close>, else 8; the two lower
  bounds may be read as decimal numbers, since no binary64 value lies between them and the
  float literals.
\<close>

theorem amount_fit_rule_holds:
  "(unknown_amount (funding_need_usd c) \<or> unknown_amount (estimated_value_amount g)
      \<longrightarrow> score_funding_amount c g = Inr 15)
   \<and> (\<not> unknown_amount (funding_need_usd c) \<and> \<not> unknown_amount (estimated_value_amount g)
      \<longrightarrow> (\<exists>need available ratio.
            funding_need_usd c = Some need \<and> estimated_value_amount g = Some available
            \<and> float_truediv need available = Inr ratio
            \<and> score_funding_amount c g = Inr (amount_fit_rule ratio)))"
proof (intro conjI impI)
  assume "unknown_amount (funding_need_usd c) \<or> unknown_amount (estimated_value_amount g)"
  then show "score_funding_amount c g = Inr 15"
    by (auto simp: score_funding_amount_def Let_def unknown_amount_iff)
next
  assume known: "\<not> unknown_amount (funding_need_usd c) \<and> \<not> unknown_amount (estimated_value_amount g)"
  then obtain need available where
    need: "funding_need_usd c = Some need" "float_or_zero (funding_need_usd c) = need" and
    avail: "estimated_value_amount g = Some available"
      "float_or_zero (estimated_value_amount g) = available"
    using float_or_zero_known by blast
  have nz: "\<not> float_is_zero available" "\<not> float_is_zero need"
    using known need avail by (simp_all add: unknown_amount_iff)
  then obtain ratio where ratio: "float_truediv need available = Inr ratio"
    by simp
  have "score_funding_amount c g = Inr (amount_fit_rule ratio)"
    unfolding score_funding_amount_def Let_def need(2) avail(2)
    using nz ratio lit_0_1_cut[OF ratio] lit_0_05_cut[OF ratio]
    by (simp add: amount_fit_rule_def lit_2_0_def lit_5_0_def del: float_truediv.simps)
  with need avail ratio show "\<exists>need available ratio.
            funding_need_usd c = Some need \<and> estimated_value_amount g = Some available
            \<and> float_truediv need available = Inr ratio
            \<and> score_funding_amount c g = Inr (amount_fit_rule ratio)"
    by blast
qed

theorem amount_fit_rule_holds_witness:
  "unknown_amount (funding_need_usd c_blank) \<and> score_funding_amount c_blank g_africa = Inr 15
   \<and> \<not> unknown_amount (funding_need_usd c_kenya)
   \<and> \<not> unknown_amount (estimated_value_amount g_africa)
   \<and> score_funding_amount c_kenya g_africa = Inr 20"
proof -
  have u: "unknown_amount (funding_need_usd c_blank)"
    by code_simp
  have k: "\<not> unknown_amount (funding_need_usd c_kenya)"
      "\<not> unknown_amount (estimated_value_amount g_africa)"
    by code_simp+
  have vals: "funding_need_usd c_kenya = Some (Finite 50000)"
      "estimated_value_amount g_africa = Some (Finite 100000)"
    by (simp_all add: c_kenya_def g_africa_def)
  have q: "float_truediv (Finite 50000) (Finite 100000) = Inr (Finite (1 / 2))"
    by code_simp
  have fit: "amount_fit_rule (Finite (1 / 2)) = 20"
    by (simp add: amount_fit_rule_def)
  from amount_fit_rule_holds [of c_blank g_africa] u
  have "score_funding_amount c_blank g_africa = Inr 15" by blast
  moreover from amount_fit_rule_holds [of c_kenya g_africa] k
  obtain ratio where "float_truediv (Finite 50000) (Finite 100000) = Inr ratio"
      "score_funding_amount c_kenya g_africa = Inr (amount_fit_rule ratio)"
    unfolding vals by blast
  then have "score_funding_amount c_kenya g_africa = Inr 20"
    using q fit by simp
  ultimately show ?thesis using u k by blast
qed

section \<open>Properties of the composite score\<close>

lemma score_geography_range: "score_geography c g \<in> {0, 35, 40}"
  by (simp add: score_geography_def Let_def)

lemma score_sector_range: "score_sector c g \<in> {10, 20, 25, 30}"
  by (simp add: score_sector_def Let_def)

lemma score_business_stage_range: "score_business_stage c g \<in> {7, 8, 9, 10}"
  by (simp add: score_business_stage_def Let_def)

lemma float_truediv_defined:
  "\<not> float_is_zero b \<Longrightarrow> \<exists>r. float_truediv a b = Inr r"
  by simp

lemma score_funding_amount_range:
  "\<exists>v. score_funding_amount c g = Inr v \<and> v \<in> {8, 15, 20}"
  by (simp add: score_funding_amount_def Let_def split: sum.splits)

lemma calculate_match_score_eq:
  "score_funding_amount c g = Inr a \<Longrightarrow>
   calculate_match_score c g =
     Inr (min 100 (score_geography c g + score_sector c g + a + score_business_stage c g),
          [''geographic'' \<mapsto> score_geography c g, ''sector'' \<mapsto> score_sector c g,
           ''amount_fit'' \<mapsto> a, ''stage'' \<mapsto> score_business_stage c g])"
  by (simp add: calculate_match_score_def Let_def)

lemma calculate_match_score_total:
  "\<exists>score bd. calculate_match_score c g = Inr (score, bd)"
  using score_funding_amount_range[of c g] by (auto simp: calculate_match_score_eq)

text \<open>
  C2. The score is \<open>min(100, geographic + sector + amount_fit + stage)\<close> over the returned
  breakdown, whose four entries are the four sub-scores; these stay within 40, 30, 20 and
  10, so the minimum is the plain sum.
\<close>

theorem score_is_sum:
  "\<exists>geo sec amt stg.
      calculate_match_score c g =
        Inr (min 100 (geo + sec + amt + stg),
             [''geographic'' \<mapsto> geo, ''sector'' \<mapsto> sec, ''amount_fit'' \<mapsto> amt, ''stage'' \<mapsto> stg])
      \<and> geo = score_geography c g \<and> sec = score_sector c g
      \<and> score_funding_amount c g = Inr amt \<and> stg = score_business_stage c g
      \<and> geo \<le> 40 \<and> sec \<le> 30 \<and> amt \<le> 20 \<and> stg \<le> 10
      \<and> min 100 (geo + sec + amt + stg) = geo + sec + amt + stg"
proof -
  obtain amt where amt: "score_funding_amount c g = Inr amt" "amt \<in> {8, 15, 20}"
    using score_funding_amount_range by blast
  have geo: "score_geography c g \<le> 40"
    using score_geography_range[of c g] by auto
  have sec: "score_sector c g \<le> 30"
    using score_sector_range[of c g] by auto
  have stg: "score_business_stage c g \<le> 10"
    using score_business_stage_range[of c g] by auto
  have a: "amt \<le> 20" using amt(2) by auto
  have "min 100 (score_geography c g + score_sector c g + amt + score_business_stage c g)
      = score_geography c g + score_sector c g + amt + score_business_stage c g"
    using geo sec stg a by linarith
  with calculate_match_score_eq[OF amt(1)] amt(1) geo sec stg a show ?thesis
    by blast
qed

theorem score_is_sum_witness:
  "calculate_match_score c_kenya g_africa =
     Inr (95, [''geographic'' \<mapsto> 35, ''sector'' \<mapsto> 30, ''amount_fit'' \<mapsto> 20, ''stage'' \<mapsto> 10])"
proof -
  have subs: "score_geography c_kenya g_africa = 35" "score_sector c_kenya g_africa = 30"
      "score_funding_amount c_kenya g_africa = Inr 20"
      "score_business_stage c_kenya g_africa = 10"
    by code_simp+
  from score_is_sum [of c_kenya g_africa] show ?thesis
    unfolding subs by auto
qed

text \<open>
  C7. Scoring never raises: every company and grant, with whatever fields null, empty or
  zero, gets a score and a breakdown. The division is guarded: when need or available is
  zero the amount-fit score is 15 without a quotient, and otherwise the quotient exists.
\<close>

theorem score_match_total:
  "(\<exists>score bd. calculate_match_score c g = Inr (score, bd))
   \<and> (\<exists>v. score_funding_amount c g = Inr v)
   \<and> (float_is_zero (float_or_zero (funding_need_usd c))
        \<or> float_is_zero (float_or_zero (estimated_value_amount g))
      \<longrightarrow> score_funding_amount c g = Inr 15)
   \<and> (\<not> float_is_zero (float_or_zero (funding_need_usd c))
        \<and> \<not> float_is_zero (float_or_zero (estimated_value_amount g))
      \<longrightarrow> (\<exists>ratio. float_truediv (float_or_zero (funding_need_usd c))
                    (float_or_zero (estimated_value_amount g)) = Inr ratio))"
  using score_funding_amount_range[of c g] calculate_match_score_total[of c g]
  by (auto simp: score_funding_amount_def Let_def)

theorem score_match_total_witness:
  "float_is_zero (float_or_zero (funding_need_usd c_blank))
   \<and> score_funding_amount c_blank g_peru = Inr 15
   \<and> (\<exists>score bd. calculate_match_score c_blank g_peru = Inr (score, bd))
   \<and> \<not> float_is_zero (float_or_zero (funding_need_usd c_kenya))
   \<and> \<not> float_is_zero (float_or_zero (estimated_value_amount g_africa))
   \<and> (\<exists>ratio. float_truediv (float_or_zero (funding_need_usd c_kenya))
                (float_or_zero (estimated_value_amount g_africa)) = Inr ratio)"
proof -
  have zero: "float_is_zero (float_or_zero (funding_need_usd c_blank))"
    by code_simp
  have nonzero: "\<not> float_is_zero (float_or_zero (funding_need_usd c_kenya))"
      "\<not> float_is_zero (float_or_zero (estimated_value_amount g_africa))"
    by code_simp+
  from score_match_total [of c_blank g_peru] zero
  have "score_funding_amount c_blank g_peru = Inr 15
      \<and> (\<exists>score bd. calculate_match_score c_blank g_peru = Inr (score, bd))"
    by blast
  moreover from score_match_total [of c_kenya g_africa] nonzero
  have "\<exists>ratio. float_truediv (float_or_zero (funding_need_usd c_kenya))
                (float_or_zero (estimated_value_amount g_africa)) = Inr ratio"
    by blast
  ultimately show ?thesis using zero nonzero by blast
qed

section \<open>Properties of the ranking\<close>

lemma round1_of_int: "round1 (of_int n) = of_int n"
proof -
  have "round_half_even (of_int (n * 10)) = n * 10"
    by (simp add: round_half_even_def Let_def del: of_int_mult)
  then show ?thesis by (simp add: round1_def)
qed

lemma score_integer:
  assumes "calculate_match_score c g = Inr (score, bd)"
  shows "\<exists>n::int. score = of_int n"
proof -
  obtain amt where amt: "score_funding_amount c g = Inr amt" "amt \<in> {8, 15, 20}"
    using score_funding_amount_range by blast
  have "score_geography c g \<in> \<int>" using score_geography_range[of c g] by auto
  moreover have "score_sector c g \<in> \<int>" using score_sector_range[of c g] by auto
  moreover have "score_business_stage c g \<in> \<int>" using score_business_stage_range[of c g] by auto
  moreover have "amt \<in> \<int>" using amt(2) by auto
  ultimately have "min 100 (score_geography c g + score_sector c g + amt + score_business_stage c g) \<in> \<int>"
    by (simp add: min_def)
  with assms calculate_match_score_eq[OF amt(1)] show ?thesis
    by (auto simp: Ints_def)
qed

lemma entry_of_Some:
  assumes "entry_of c g = Some m"
  shows "30 < match_score m \<and> match_grant m = g
         \<and> calculate_match_score c g = Inr (match_score m, score_breakdown m)"
proof -
  from assms obtain score bd where
    sc: "calculate_match_score c g = Inr (score, bd)" "30 < score" "m = make_match g score bd"
    by (auto simp: entry_of_def split: sum.splits if_splits)
  from score_integer[OF sc(1)] have "round1 score = score"
    by (auto simp: round1_of_int)
  with sc show ?thesis by (simp add: make_match_def)
qed

lemma match_loop_eq:
  "match_loop c gs acc = Inr (acc @ List.map_filter (entry_of c) gs)"
proof (induction gs arbitrary: acc)
  case Nil
  show ?case by simp
next
  case (Cons g gs)
  obtain score bd where sc: "calculate_match_score c g = Inr (score, bd)"
    using calculate_match_score_total by blast
  show ?case
    by (simp add: sc Cons.IH entry_of_def)
qed

lemma set_sorted_reverse: "set (sorted_reverse key xs) = set xs"
  by (simp add: sorted_reverse_def)

lemma sorted_reverse_desc:
  "sorted_wrt (\<lambda>a b. key b \<le> key a) (sorted_reverse key xs)"
proof -
  have "sorted (map key (sort_key key (rev xs)))" by (rule sorted_sort_key)
  then have "sorted_wrt (\<lambda>a b. key a \<le> key b) (sort_key key (rev xs))"
    by (simp add: sorted_map)
  then show ?thesis
    by (simp add: sorted_reverse_def sorted_wrt_rev)
qed

lemma sorted_reverse_stable:
  "filter (\<lambda>y. key y = k) (sorted_reverse key xs) = filter (\<lambda>y. key y = k) xs"
proof -
  have "filter (\<lambda>y. key y = k) (sorted_reverse key xs)
      = rev (filter (\<lambda>y. key y = k) (sort_key key (rev xs)))"
    by (simp add: sorted_reverse_def rev_filter)
  also have "\<dots> = rev (filter (\<lambda>y. key y = k) (rev xs))"
    by (simp only: sort_key_stable)
  also have "\<dots> = filter (\<lambda>y. key y = k) xs"
    by (simp add: rev_filter)
  finally show ?thesis .
qed

lemma slice_to_nonneg: "0 \<le> n \<Longrightarrow> slice_to n xs = take (nat n) xs"
  by (simp add: slice_to_def)

lemma slice_to_take: "\<exists>m. slice_to n xs = take m xs"
  by (auto simp: slice_to_def)

lemma in_set_map_filter:
  "m \<in> set (List.map_filter f xs) \<longleftrightarrow> (\<exists>x \<in> set xs. f x = Some m)"
  by (induction xs) (auto split: option.splits)

text \<open>
  C1. When the company id resolves to a company, \<^verbatim>\<open>find_matches\<close> returns, whatever the
  grant collection: only entries whose score is above 30, each the entry of a grant of the
  collection with the score computed for it; in non-increasing order of score; entries of
  equal score in the order of the grant collection; and at most \<open>top_n\<close> of them, \<open>top_n\<close>
  being a count (a negative number would be read as a position from the end).
\<close>

theorem find_matches_ranked:
  assumes found: "find (\<lambda>c. c_id c = company_id) (companies s) = Some c"
  shows "\<exists>ms s'. find_matches s company_id top_n = (Inr (c, ms), s')
     \<and> (\<forall>m \<in> set ms. 30 < match_score m \<and> match_grant m \<in> set (grants s)
            \<and> calculate_match_score c (match_grant m) = Inr (match_score m, score_breakdown m))
     \<and> sorted_wrt (\<lambda>a b. match_score b \<le> match_score a) ms
     \<and> (\<forall>k. prefix (filter (\<lambda>m. match_score m = k) ms)
                   (filter (\<lambda>m. match_score m = k) (List.map_filter (entry_of c) (grants s))))
     \<and> (0 \<le> top_n \<longrightarrow> int (length ms) \<le> top_n)"
proof -
  define cands where "cands = List.map_filter (entry_of c) (grants s)"
  define full where "full = sorted_reverse match_score cands"
  define ms where "ms = slice_to top_n full"
  obtain n where n: "ms = take n full"
    unfolding ms_def using slice_to_take by blast
  have run: "find_matches s company_id top_n =
      (Inr (c, ms), s\<lparr>reads := reads s @ [ReadCompany company_id, ReadGrants]\<rparr>)"
    using found
    by (simp add: find_matches_def query_company_first_def query_grant_all_def match_loop_eq
        ms_def full_def cands_def)
  have sub: "set ms \<subseteq> set cands"
    using set_take_subset[of n full] by (simp add: n full_def set_sorted_reverse)
  have each: "30 < match_score m \<and> match_grant m \<in> set (grants s)
      \<and> calculate_match_score c (match_grant m) = Inr (match_score m, score_breakdown m)"
    if "m \<in> set ms" for m
  proof -
    from that sub have "m \<in> set (List.map_filter (entry_of c) (grants s))"
      unfolding cands_def by blast
    then obtain g where g: "g \<in> set (grants s)" "entry_of c g = Some m"
      unfolding in_set_map_filter by blast
    from entry_of_Some[OF g(2)] g(1) show ?thesis by simp
  qed
  have desc: "sorted_wrt (\<lambda>a b. match_score b \<le> match_score a) ms"
    unfolding n full_def by (intro sorted_wrt_take sorted_reverse_desc)
  have ties: "prefix (filter (\<lambda>m. match_score m = k) ms) (filter (\<lambda>m. match_score m = k) cands)"
    for k
  proof -
    have "prefix (filter (\<lambda>m. match_score m = k) ms) (filter (\<lambda>m. match_score m = k) full)"
      unfolding n by (intro filter_mono_prefix take_is_prefix)
    then show ?thesis by (simp add: full_def sorted_reverse_stable)
  qed
  have len: "0 \<le> top_n \<longrightarrow> int (length ms) \<le> top_n"
  proof
    assume nonneg: "0 \<le> top_n"
    then have "length ms \<le> nat top_n"
      by (simp add: ms_def slice_to_nonneg)
    with nonneg show "int (length ms) \<le> top_n"
      by linarith
  qed
  from run each desc ties len show ?thesis
    unfolding cands_def by blast
qed

theorem find_matches_ranked_witness:
  "find (\<lambda>c. c_id c = 1) (companies db0) = Some c_kenya \<and> (0::int) \<le> 5
   \<and> (\<exists>ms s'. find_matches db0 1 5 = (Inr (c_kenya, ms), s')
         \<and> (\<forall>m \<in> set ms. 30 < match_score m) \<and> int (length ms) \<le> 5)"
proof -
  have found: "find (\<lambda>c. c_id c = 1) (companies db0) = Some c_kenya"
    by (simp add: db0_def c_kenya_def)
  from find_matches_ranked [OF found, of 5] obtain ms s' where
    "find_matches db0 1 5 = (Inr (c_kenya, ms), s')" "\<forall>m \<in> set ms. 30 < match_score m"
    "(0::int) \<le> 5 \<longrightarrow> int (length ms) \<le> 5"
    by blast
  with found show ?thesis
    by auto
qed

text \<open>
  C8. When the company id resolves to no company, \<^verbatim>\<open>find_matches\<close> raises \<^verbatim>\<open>ValueError\<close>
  after the single read of the company: the grants are not read. The endpoint answers it
  with status 404.
\<close>

theorem find_matches_not_found:
  assumes "find (\<lambda>c. c_id c = company_id) (companies s) = None"
  shows "find_matches s company_id top_n
           = (Inl ValueError, s\<lparr>reads := reads s @ [ReadCompany company_id]\<rparr>)
     \<and> (ReadGrants \<notin> set (reads s)
          \<longrightarrow> ReadGrants \<notin> set (reads (snd (find_matches s company_id top_n))))
     \<and> (1 \<le> top_n \<and> top_n \<le> 20
          \<longrightarrow> match_company_with_grants ai s company_id top_n
                = (HTTPException 404, s\<lparr>reads := reads s @ [ReadCompany company_id]\<rparr>))"
  using assms
  by (simp add: find_matches_def query_company_first_def match_company_with_grants_def)

theorem find_matches_not_found_witness:
  "find (\<lambda>c. c_id c = 7) (companies db0) = None
   \<and> fst (find_matches db0 7 5) = Inl ValueError
   \<and> reads (snd (find_matches db0 7 5)) = [ReadCompany 7]
   \<and> fst (match_company_with_grants (\<lambda>c m. ''advice'') db0 7 5) = HTTPException 404"
proof -
  have missing: "find (\<lambda>c. c_id c = 7) (companies db0) = None"
    by (simp add: db0_def c_kenya_def c_blank_def c_tech_def c_miner_def)
  have r: "reads db0 = []"
    by (simp add: db0_def)
  from find_matches_not_found [OF missing, of 5 "\<lambda>c m. ''advice''"] missing r show ?thesis
    by simp
qed

end
